theory Spec2Isabelle
  imports Main
begin

section \<open>Python strings\<close>

text \<open>
  Strings are lists of characters. The model covers ASCII text: \<open>casefold\<close> lowers the
  letters \<open>A\<close> to \<open>Z\<close> and keeps every other character, which is what Python's
  \<open>str.casefold\<close> does on ASCII input. The general statements below use no property of
  the folding; only the concrete instances evaluate it, on ASCII words.
\<close>

definition ascii_uppercase :: string where
  "ascii_uppercase = ''ABCDEFGHIJKLMNOPQRSTUVWXYZ''"

definition ascii_lowercase :: string where
  "ascii_lowercase = ''abcdefghijklmnopqrstuvwxyz''"

definition casefold_char :: "char \<Rightarrow> char" where
  "casefold_char c =
     (case map_of (zip ascii_uppercase ascii_lowercase) c of Some l \<Rightarrow> l | None \<Rightarrow> c)"

definition casefold :: "string \<Rightarrow> string" where
  "casefold s = map casefold_char s"

text \<open>\<open>s.startswith(p)\<close>\<close>

definition startswith :: "string \<Rightarrow> string \<Rightarrow> bool" where
  "startswith s p = (take (length p) s = p)"

text \<open>\<open>sep.join(xs)\<close>\<close>

fun join :: "string \<Rightarrow> string list \<Rightarrow> string" where
  "join sep [] = []"
| "join sep [x] = x"
| "join sep (x # y # ys) = x @ sep @ join sep (y # ys)"

section \<open>The fact grammar (pyparsing)\<close>

text \<open>
  The character classes of pyparsing: \<open>alphas\<close> is the ASCII letters, \<open>nums\<close> the
  digits, \<open>alphanums\<close> both. Every parser element skips the default whitespace
  characters (space, newline, tab, carriage return) before it matches.
\<close>

definition alphas :: string where
  "alphas = ascii_uppercase @ ascii_lowercase"

definition nums :: string where
  "nums = ''0123456789''"

definition alphanums :: string where
  "alphanums = alphas @ nums"

definition white_chars :: string where
  "white_chars = [CHR '' '', CHR 0x0A, CHR 0x09, CHR 0x0D]"

definition preParse :: "string \<Rightarrow> string" where
  "preParse s = dropWhile (\<lambda>c. c \<in> set white_chars) s"

text \<open>
  \<open>Word(chars)\<close>: after the whitespace, the longest run of characters of \<open>chars\<close>,
  which must not be empty. The result is the token and the rest of the input; \<open>None\<close>
  is pyparsing's ParseException.
\<close>

definition Word :: "string \<Rightarrow> string \<Rightarrow> (string \<times> string) option" where
  "Word chars s =
     (let s' = preParse s; tok = takeWhile (\<lambda>c. c \<in> set chars) s'
      in if tok = [] then None else Some (tok, dropWhile (\<lambda>c. c \<in> set chars) s'))"

text \<open>\<open>Suppress('-')\<close>: after the whitespace, the literal; no token is kept.\<close>

definition Suppress :: "string \<Rightarrow> string \<Rightarrow> string option" where
  "Suppress lit s =
     (let s' = preParse s
      in if startswith s' lit then Some (drop (length lit) s') else None)"

text \<open>
  \<open>Optional(Suppress('-') + Word(alphas).setResultsName("lang"))\<close>: when the sequence
  fails, at the dash or at the word, only the whitespace that the element skipped before
  it tried is consumed, and \<open>lang\<close> stays unset, which a ParseResults reads as the empty
  string.
\<close>

definition optional_lang :: "string \<Rightarrow> string \<times> string" where
  "optional_lang s =
     (case Suppress ''-'' s of
        None \<Rightarrow> ([], preParse s)
      | Some s1 \<Rightarrow>
          (case Word alphas s1 of None \<Rightarrow> ([], preParse s) | Some (l, s2) \<Rightarrow> (l, s2)))"

definition subject_chars :: string where
  "subject_chars = alphanums @ ''_[]|?.<>{}-=''"

text \<open>
  The loop of \<open>ZeroOrMore(Word(chars))\<close> after its first match: words are taken until
  one fails, and the input is left where the last word ended. The loop ends because every
  word consumes at least one character.
\<close>

function repeat_Word :: "string \<Rightarrow> string \<Rightarrow> string list \<times> string" where
  "repeat_Word chars s =
     (case Word chars s of
        None \<Rightarrow> ([], s)
      | Some (tok, r) \<Rightarrow> (case repeat_Word chars r of (toks, r') \<Rightarrow> (tok # toks, r')))"
  by pat_completeness auto
termination
proof (relation "measure (\<lambda>(chars, s). length s)")
  fix chars s :: string and x :: "string \<times> string" and tok r :: string
  let ?p = "\<lambda>c. c \<in> set chars"
  assume "Word chars s = Some x" and "(tok, r) = x"
  then have tok: "takeWhile ?p (preParse s) \<noteq> []" and r: "r = dropWhile ?p (preParse s)"
    by (auto simp: Word_def Let_def split: if_splits)
  have "length (takeWhile ?p (preParse s)) + length r = length (preParse s)"
    unfolding r by (metis length_append takeWhile_dropWhile_id)
  moreover have "length (preParse s) \<le> length s"
    by (simp add: preParse_def length_dropWhile_le)
  moreover from tok have "0 < length (takeWhile ?p (preParse s))" by simp
  ultimately have "length r < length s" by linarith
  then show "((chars, r), (chars, s)) \<in> measure (\<lambda>(chars, s). length s)" by simp
qed simp

declare repeat_Word.simps [simp del]

text \<open>
  \<open>ZeroOrMore(Word(chars))\<close>: the first word, then the loop. When not even the first
  word matches there is no token, and only the whitespace skipped before the attempt is
  consumed.
\<close>

definition ZeroOrMore_Word :: "string \<Rightarrow> string \<Rightarrow> string list \<times> string" where
  "ZeroOrMore_Word chars s =
     (case Word chars s of
        None \<Rightarrow> ([], preParse s)
      | Some (tok, r) \<Rightarrow> (case repeat_Word chars r of (toks, r') \<Rightarrow> (tok # toks, r')))"

text \<open>
  The named results of a parse: \<open>result.name\<close>, \<open>result.lang\<close> (empty when the
  language was not given) and \<open>result.subjects\<close> (empty when no subject matched).
\<close>

record ParseResults =
  name :: string
  lang :: string
  subjects :: "string list"

text \<open>
  The pattern of \<open>handle_fact\<close>, with the input left over after the match:
  \<open>Word(alphanums)("name") + Optional(Suppress('-') + Word(alphas)("lang"))
   + ZeroOrMore(Word(alphanums + '_[]|?.<>{}-='))("subjects")\<close>.
\<close>

definition pattern :: "string \<Rightarrow> (ParseResults \<times> string) option" where
  "pattern s =
     (case Word alphanums s of
        None \<Rightarrow> None
      | Some (n, s1) \<Rightarrow>
          (case optional_lang s1 of
             (l, s2) \<Rightarrow>
               (case ZeroOrMore_Word subject_chars s2 of
                  (subj, s3) \<Rightarrow> Some (\<lparr>name = n, lang = l, subjects = subj\<rparr>, s3))))"

text \<open>
  \<open>pattern.parseString(s)\<close>: the match need not reach the end of the input
  (\<open>parseAll\<close> is not set), so the rest is dropped.
\<close>

definition parseString :: "string \<Rightarrow> ParseResults option" where
  "parseString s = map_option fst (pattern s)"

section \<open>Python values, errors and the collaborators\<close>

text \<open>
  The values that reach the command machinery at run time. \<open>'f\<close> names the plain
  functions (handlers, rules), \<open>'p\<close> the instances of \<open>Permission\<close>.
\<close>

datatype ('f, 'p) pyval =
    PNone
  | is_PBool: PBool bool
  | PInt int
  | is_PStr: PStr string
  | is_PTuple: PTuple "('f, 'p) pyval list"
  | PList "('f, 'p) pyval list"
  | is_PPermission: PPermission 'p
  | is_PFunction: PFunction 'f

text \<open>Truth value of \<open>if value\<close> and \<open>not value\<close>.\<close>

fun truthy :: "('f, 'p) pyval \<Rightarrow> bool" where
  "truthy PNone = False"
| "truthy (PBool b) = b"
| "truthy (PInt i) = (i \<noteq> 0)"
| "truthy (PStr s) = (s \<noteq> [])"
| "truthy (PTuple xs) = (xs \<noteq> [])"
| "truthy (PList xs) = (xs \<noteq> [])"
| "truthy (PPermission p) = True"
| "truthy (PFunction f) = True"

datatype error =
    IndexError
  | TypeError
  | NotCallableError
  | ValueError
  | NameCollisionException string
  | InvalidCommandException
  | Psycopg2Error string
  | OtherException string

text \<open>\<open>except psycopg2.Error\<close> catches the class and its subclasses.\<close>

fun is_psycopg2_Error :: "error \<Rightarrow> bool" where
  "is_psycopg2_Error (Psycopg2Error k) = True"
| "is_psycopg2_Error e = False"

text \<open>
  The process-wide state the module reads and writes: the prometheus metrics (a histogram
  is kept as its number of observations, the labelled histogram as the labels observed,
  in order), the replies sent through \<open>context.reply\<close>, and the calls made to the rule
  resolver \<open>get_rule\<close> with their arguments. Elapsed times and log lines are not kept.
\<close>

record state =
  TRIGGER_TIME :: nat
  TRIGGER_MISS :: nat
  FACT_TIME :: nat
  TIME_IN_COMMAND :: "string list"
  replies :: "string list"
  rule_queries :: "(string list \<times> string list \<times> bool) list"

record Context =
  words :: "string list"
  words_eol :: "string list"
  prefixed :: bool

record Fact =
  message :: string

type_synonym ('f, 'p) outcome = "(error + ('f, 'p) pyval) \<times> state"

section \<open>Command\<close>

text \<open>
  The attrs class \<open>Command\<close>. Its validators run at construction, in the order of the
  attributes; a validator either raises or lets the value through, so here it returns the
  error or the value at the type the validator has established.
\<close>

record ('f, 'p) Command =
  underlying :: 'f
  aliases :: "string list"
  require_permission :: "'p option"
  require_channel :: bool
  require_direct_message :: bool
  func :: "('f, 'p) pyval"

text \<open>\<open>attr.validators.is_callable()\<close>\<close>

fun is_callable :: "('f, 'p) pyval \<Rightarrow> error + 'f" where
  "is_callable (PFunction f) = Inr f"
| "is_callable v = Inl NotCallableError"

text \<open>\<open>attr.validators.instance_of(str)\<close>, \<open>(tuple)\<close>, \<open>(bool)\<close>, \<open>(Permission)\<close>\<close>

fun instance_of_str :: "('f, 'p) pyval \<Rightarrow> error + string" where
  "instance_of_str (PStr s) = Inr s"
| "instance_of_str v = Inl TypeError"

fun instance_of_tuple :: "('f, 'p) pyval \<Rightarrow> error + ('f, 'p) pyval list" where
  "instance_of_tuple (PTuple xs) = Inr xs"
| "instance_of_tuple v = Inl TypeError"

fun instance_of_bool :: "('f, 'p) pyval \<Rightarrow> error + bool" where
  "instance_of_bool (PBool b) = Inr b"
| "instance_of_bool v = Inl TypeError"

fun instance_of_Permission :: "('f, 'p) pyval \<Rightarrow> error + 'p" where
  "instance_of_Permission (PPermission p) = Inr p"
| "instance_of_Permission v = Inl TypeError"

text \<open>\<open>attr.validators.optional(validator)\<close>: \<open>None\<close> passes, anything else is validated.\<close>

definition optional :: "(('f, 'p) pyval \<Rightarrow> error + 'a) \<Rightarrow> ('f, 'p) pyval \<Rightarrow> error + 'a option" where
  "optional validator v =
     (if v = PNone then Inr None
      else (case validator v of Inl e \<Rightarrow> Inl e | Inr x \<Rightarrow> Inr (Some x)))"

text \<open>The loop \<open>for member in value: member_validator(member)\<close>: the first error stops it.\<close>

fun validate_members :: "('v \<Rightarrow> error + 'a) \<Rightarrow> 'v list \<Rightarrow> error + 'a list" where
  "validate_members mv [] = Inr []"
| "validate_members mv (x # xs) =
     (case mv x of
        Inl e \<Rightarrow> Inl e
      | Inr y \<Rightarrow> (case validate_members mv xs of Inl e \<Rightarrow> Inl e | Inr ys \<Rightarrow> Inr (y # ys)))"

text \<open>
  \<open>attr.validators.deep_iterable(member_validator, iterable_validator)\<close>: the iterable
  validator first, then every member.
\<close>

definition deep_iterable ::
  "(('f, 'p) pyval \<Rightarrow> error + 'a) \<Rightarrow> (('f, 'p) pyval \<Rightarrow> error + ('f, 'p) pyval list)
   \<Rightarrow> ('f, 'p) pyval \<Rightarrow> error + 'a list" where
  "deep_iterable member_validator iterable_validator v =
     (case iterable_validator v of Inl e \<Rightarrow> Inl e | Inr ms \<Rightarrow> validate_members member_validator ms)"

text \<open>\<open>truthy_validator\<close>: \<open>if not value: raise ValueError(value)\<close>, on the attribute's value.\<close>

definition truthy_validator :: "('f, 'p) pyval \<Rightarrow> error option" where
  "truthy_validator v = (if \<not> truthy v then Some ValueError else None)"

text \<open>
  The validator of \<open>aliases\<close>:
  \<open>and_(deep_iterable(member_validator=instance_of(str),
                      iterable_validator=instance_of(tuple)), truthy_validator)\<close>.
\<close>

definition aliases_validator :: "('f, 'p) pyval \<Rightarrow> error + string list" where
  "aliases_validator v =
     (case deep_iterable instance_of_str instance_of_tuple v of
        Inl e \<Rightarrow> Inl e
      | Inr names \<Rightarrow> (case truthy_validator v of Some e \<Rightarrow> Inl e | None \<Rightarrow> Inr names))"

text \<open>
  \<open>Command(underlying=u, aliases=a, require_permission=rp, require_channel=rc,
  require_direct_message=rd, func=fn)\<close>; the defaults are \<open>None\<close>, \<open>False\<close>, \<open>False\<close>
  and \<open>None\<close>.
\<close>

definition Command_init ::
  "('f, 'p) pyval \<Rightarrow> ('f, 'p) pyval \<Rightarrow> ('f, 'p) pyval \<Rightarrow> ('f, 'p) pyval \<Rightarrow> ('f, 'p) pyval
   \<Rightarrow> ('f, 'p) pyval \<Rightarrow> error + ('f, 'p) Command" where
  "Command_init u a rp rc rd fn =
     (case is_callable u of Inl e \<Rightarrow> Inl e | Inr u' \<Rightarrow>
      (case aliases_validator a of Inl e \<Rightarrow> Inl e | Inr a' \<Rightarrow>
       (case optional instance_of_Permission rp of Inl e \<Rightarrow> Inl e | Inr rp' \<Rightarrow>
        (case instance_of_bool rc of Inl e \<Rightarrow> Inl e | Inr rc' \<Rightarrow>
         (case instance_of_bool rd of Inl e \<Rightarrow> Inl e | Inr rd' \<Rightarrow>
            Inr \<lparr>underlying = u', aliases = a', require_permission = rp',
                 require_channel = rc', require_direct_message = rd', func = fn\<rparr>)))))"

text \<open>
  What a name of the registry or a rule can be bound to: a plain value (a function among
  them) or a \<open>Command\<close> instance, which is callable and true.
\<close>

datatype ('f, 'p) object =
    Plain "('f, 'p) pyval"
  | CommandObject "('f, 'p) Command"

fun callable :: "('f, 'p) object \<Rightarrow> bool" where
  "callable (Plain (PFunction f)) = True"
| "callable (Plain v) = False"
| "callable (CommandObject c) = True"

fun truthy_object :: "('f, 'p) object \<Rightarrow> bool" where
  "truthy_object (Plain v) = truthy v"
| "truthy_object (CommandObject c) = True"

text \<open>
  The collaborators that are not part of this module: the rule resolver, the announcement
  handler, the behaviour of each plain function when called with \<open>(context, *args)\<close>,
  and the fact manager of \<open>context.bot\<close>. A call either raises or returns.
\<close>

record ('f, 'p) env =
  get_rule :: "string list \<Rightarrow> string list \<Rightarrow> bool \<Rightarrow> ('f, 'p) object \<times> ('f, 'p) pyval list"
  handle_ratmama_announcement :: 'f
  apply_function :: "'f \<Rightarrow> Context \<Rightarrow> ('f, 'p) pyval list \<Rightarrow> state \<Rightarrow> ('f, 'p) outcome"
  fact_exists :: "string \<Rightarrow> string \<Rightarrow> error + bool"
  fact_find :: "string \<Rightarrow> string \<Rightarrow> error + Fact"

text \<open>
  \<open>Command.__call__\<close>: the timer of \<open>TIME_IN_COMMAND\<close>, labelled \<open>self.aliases[0]\<close>,
  is a context manager around the call of \<open>self.underlying\<close>; it observes when the block
  is left, by a return or by an exception, and does not catch the exception.
\<close>

definition Command_call ::
  "('f, 'p) env \<Rightarrow> ('f, 'p) Command \<Rightarrow> Context \<Rightarrow> ('f, 'p) pyval list \<Rightarrow> state
   \<Rightarrow> ('f, 'p) outcome" where
  "Command_call E self ctx args st =
     (case aliases self of
        [] \<Rightarrow> (Inl IndexError, st)
      | label # _ \<Rightarrow>
          (case apply_function E (underlying self) ctx args st of
             (r, st') \<Rightarrow> (r, st'\<lparr>TIME_IN_COMMAND := TIME_IN_COMMAND st' @ [label]\<rparr>)))"

text \<open>\<open>command_fun(ctx, *extra_args)\<close>\<close>

fun call :: "('f, 'p) env \<Rightarrow> ('f, 'p) object \<Rightarrow> Context \<Rightarrow> ('f, 'p) pyval list \<Rightarrow> state
   \<Rightarrow> ('f, 'p) outcome" where
  "call E (Plain (PFunction f)) ctx args st = apply_function E f ctx args st"
| "call E (Plain v) ctx args st = (Inl TypeError, st)"
| "call E (CommandObject c) ctx args st = Command_call E c ctx args st"

section \<open>The registry\<close>

text \<open>
  \<open>_registered_commands\<close> is a dictionary from names to what was registered; it is
  passed and returned where the source updates the global.
\<close>

type_synonym ('f, 'p) registry = "string \<rightharpoonup> ('f, 'p) object"

text \<open>\<open>names\<close> of \<open>_register\<close> is one string or an iterable of strings.\<close>

datatype names_arg = Single string | Many "string list"

text \<open>
  The loop of \<open>_register\<close> over the case-folded names: a name that is already a key
  raises, any other name is stored at once.
\<close>

fun register_loop ::
  "('f, 'p) object \<Rightarrow> string list \<Rightarrow> ('f, 'p) registry \<Rightarrow> (error + bool) \<times> ('f, 'p) registry" where
  "register_loop fn [] reg = (Inr True, reg)"
| "register_loop fn (alias # rest) reg =
     (case reg alias of
        Some other \<Rightarrow> (Inl (NameCollisionException alias), reg)
      | None \<Rightarrow> register_loop fn rest (reg(alias \<mapsto> fn)))"

text \<open>\<open>_register(func, names)\<close>, with the registry before and after.\<close>

definition register ::
  "('f, 'p) object \<Rightarrow> names_arg \<Rightarrow> ('f, 'p) registry \<Rightarrow> (error + bool) \<times> ('f, 'p) registry" where
  "register fn names reg =
     (let names1 = (case names of Single n \<Rightarrow> [n] | Many ns \<Rightarrow> ns);
          names2 = map casefold names1
      in if fn = Plain PNone \<or> \<not> callable fn then (Inr False, reg)
         else register_loop fn names2 reg)"

text \<open>
  The decorator \<open>command(*aliases, **kwargs)\<close> applied to \<open>func\<close>: it builds the
  \<open>Command\<close>, registers it under the aliases and returns \<open>func\<close>. The keyword arguments
  are given in full, with the defaults of the class where the caller leaves one out.
\<close>

definition command ::
  "('f, 'p) pyval list \<Rightarrow> ('f, 'p) pyval \<Rightarrow> ('f, 'p) pyval \<Rightarrow> ('f, 'p) pyval \<Rightarrow> ('f, 'p) pyval
   \<Rightarrow> ('f, 'p) pyval \<Rightarrow> ('f, 'p) registry \<Rightarrow> (error + ('f, 'p) pyval) \<times> ('f, 'p) registry" where
  "command als rp rc rd fn fun_arg reg =
     (case Command_init fun_arg (PTuple als) rp rc rd fn of
        Inl e \<Rightarrow> (Inl e, reg)
      | Inr cmd \<Rightarrow>
          (case register (CommandObject cmd) (Many (aliases cmd)) reg of
             (Inl e, reg') \<Rightarrow> (Inl e, reg')
           | (Inr ok, reg') \<Rightarrow>
               if \<not> ok then (Inl InvalidCommandException, reg') else (Inr fun_arg, reg')))"

section \<open>Facts\<close>

text \<open>The decorator \<open>aio_time(metric)\<close>: one observation when the call ends, however it ends.\<close>

definition observe_FACT_TIME :: "('f, 'p) outcome \<Rightarrow> ('f, 'p) outcome" where
  "observe_FACT_TIME out = (case out of (r, st) \<Rightarrow> (r, st\<lparr>FACT_TIME := FACT_TIME st + 1\<rparr>))"

definition observe_TRIGGER_TIME :: "('f, 'p) outcome \<Rightarrow> ('f, 'p) outcome" where
  "observe_TRIGGER_TIME out =
     (case out of (r, st) \<Rightarrow> (r, st\<lparr>TRIGGER_TIME := TRIGGER_TIME st + 1\<rparr>))"

text \<open>\<open>context.reply(msg)\<close>\<close>

definition reply :: "string \<Rightarrow> state \<Rightarrow> state" where
  "reply msg st = st\<lparr>replies := replies st @ [msg]\<rparr>"

text \<open>
  What the \<open>try\<close> block of \<open>handle_fact\<close> does with an exception of the fact manager:
  a \<open>psycopg2.Error\<close> is caught and the handler returns \<open>False\<close>, anything else goes on
  to the caller.
\<close>

definition except_psycopg2 :: "error \<Rightarrow> state \<Rightarrow> ('f, 'p) outcome" where
  "except_psycopg2 e st = (if is_psycopg2_Error e then (Inr (PBool False), st) else (Inl e, st))"

text \<open>The body of \<open>handle_fact\<close>, without its timing decorator.\<close>

definition handle_fact_body :: "('f, 'p) env \<Rightarrow> Context \<Rightarrow> state \<Rightarrow> ('f, 'p) outcome" where
  "handle_fact_body E context st =
     (case words_eol context of
        [] \<Rightarrow> (Inl IndexError, st)
      | line # _ \<Rightarrow>
          (case parseString line of
             None \<Rightarrow> (Inr PNone, st)
           | Some result \<Rightarrow>
               (let fact = name result;
                    lng = (if lang result \<noteq> [] then lang result else ''en'');
                    users = (if subjects result \<noteq> [] then subjects result else [])
                in case fact_exists E (casefold fact) (casefold lng) of
                     Inl e \<Rightarrow> except_psycopg2 e st
                   | Inr found \<Rightarrow>
                       if \<not> found then (Inr (PBool False), st)
                       else (case fact_find E (casefold fact) (casefold lng) of
                               Inl e \<Rightarrow> except_psycopg2 e st
                             | Inr fact' \<Rightarrow>
                                 (Inr (PBool True),
                                  reply (join '', '' users
                                         @ (if users \<noteq> [] then '': '' else [])
                                         @ message fact') st)))))"

definition handle_fact :: "('f, 'p) env \<Rightarrow> Context \<Rightarrow> state \<Rightarrow> ('f, 'p) outcome" where
  "handle_fact E context st = observe_FACT_TIME (handle_fact_body E context st)"

section \<open>The dispatcher\<close>

text \<open>
  Lines 129 to 149 of \<open>trigger\<close>: the handler and the extra arguments chosen from the
  registry or by the rule resolver. \<open>ctx.words[0]\<close> raises on an empty list; in the
  branch without prefix it is read only for the log line of a rule that was found. Each
  call of \<open>get_rule\<close> is recorded in the state.
\<close>

definition ask_get_rule ::
  "('f, 'p) env \<Rightarrow> Context \<Rightarrow> bool \<Rightarrow> state
   \<Rightarrow> (('f, 'p) object \<times> ('f, 'p) pyval list) \<times> state" where
  "ask_get_rule E ctx prefixless st =
     (get_rule E (words ctx) (words_eol ctx) prefixless,
      st\<lparr>rule_queries := rule_queries st @ [(words ctx, words_eol ctx, prefixless)]\<rparr>)"

definition select ::
  "('f, 'p) env \<Rightarrow> ('f, 'p) registry \<Rightarrow> Context \<Rightarrow> state
   \<Rightarrow> (error + ('f, 'p) object \<times> ('f, 'p) pyval list) \<times> state" where
  "select E reg ctx st =
     (if prefixed ctx then
        (case words ctx of
           [] \<Rightarrow> (Inl IndexError, st)
         | w # _ \<Rightarrow>
             (case reg (casefold w) of
                Some command_fun \<Rightarrow> (Inr (command_fun, []), st)
              | None \<Rightarrow> (case ask_get_rule E ctx False st of (found, st') \<Rightarrow> (Inr found, st'))))
      else
        (case ask_get_rule E ctx True st of
           ((command_fun, extra_args), st') \<Rightarrow>
             if truthy_object command_fun \<and> words ctx = [] then (Inl IndexError, st')
             else (Inr (command_fun, extra_args), st')))"

text \<open>The body of \<open>trigger\<close>, without its timing decorator.\<close>

definition trigger_body ::
  "('f, 'p) env \<Rightarrow> ('f, 'p) registry \<Rightarrow> Context \<Rightarrow> state \<Rightarrow> ('f, 'p) outcome" where
  "trigger_body E reg ctx st =
     (case words_eol ctx of
        [] \<Rightarrow> (Inl IndexError, st)
      | line # _ \<Rightarrow>
          if line = [] then (Inr PNone, st)
          else
            (case select E reg ctx st of
               (Inl e, st1) \<Rightarrow> (Inl e, st1)
             | (Inr (selected, extra_args), st1) \<Rightarrow>
                 (let command_fun =
                        (if startswith line ''Incoming Client:''
                         then Plain (PFunction (handle_ratmama_announcement E))
                         else selected)
                  in if truthy_object command_fun then call E command_fun ctx extra_args st1
                     else
                       (case (if prefixed ctx then handle_fact E ctx st1
                              else (Inr (PBool False), st1)) of
                          (Inl e, st2) \<Rightarrow> (Inl e, st2)
                        | (Inr result, st2) \<Rightarrow>
                            if \<not> truthy result
                            then (Inr PNone, st2\<lparr>TRIGGER_MISS := TRIGGER_MISS st2 + 1\<rparr>)
                            else (Inr PNone, st2)))))"

definition trigger ::
  "('f, 'p) env \<Rightarrow> ('f, 'p) registry \<Rightarrow> Context \<Rightarrow> state \<Rightarrow> ('f, 'p) outcome" where
  "trigger E reg ctx st = observe_TRIGGER_TIME (trigger_body E reg ctx st)"

section \<open>Example data\<close>

text \<open>
  A small world for the concrete instances below. Functions are numbered: 0 is the
  announcement handler, 1 the handler behind the command \<open>ping\<close>, 2 a rule, 3 a handler
  that raises. The rule resolver knows a rule for the single word \<open>Ping\<close> and one for
  \<open>hello\<close>. The fact store holds the fact \<open>fact\<close> in English; looking for \<open>down\<close>
  fails in the database, and \<open>gone\<close> exists but cannot be fetched.
\<close>

definition ex_state :: state where
  "ex_state = \<lparr>TRIGGER_TIME = 0, TRIGGER_MISS = 0, FACT_TIME = 0, TIME_IN_COMMAND = [],
               replies = [], rule_queries = []\<rparr>"

definition ex_env :: "(nat, nat) env" where
  "ex_env =
     \<lparr>get_rule = (\<lambda>ws eol prefixless.
         if ws = [''Ping''] \<or> ws = [''hello''] then (Plain (PFunction 2), [PStr ''arg''])
         else (Plain PNone, [])),
      handle_ratmama_announcement = 0,
      apply_function = (\<lambda>f ctx args st.
         if f = 3 then (Inl (OtherException ''boom''), st) else (Inr (PInt (int f)), st)),
      fact_exists = (\<lambda>n l.
         if n = ''down'' then Inl (Psycopg2Error ''OperationalError'')
         else Inr ((n = ''fact'' \<or> n = ''gone'') \<and> l = ''en'')),
      fact_find = (\<lambda>n l.
         if n = ''fact'' \<and> l = ''en'' then Inr \<lparr>message = ''the message''\<rparr>
         else Inl (Psycopg2Error ''OperationalError''))\<rparr>"

definition ex_command :: "(nat, nat) Command" where
  "ex_command = \<lparr>underlying = 1, aliases = [''ping'', ''p''], require_permission = None,
                 require_channel = False, require_direct_message = False, func = PNone\<rparr>"

definition ex_failing_command :: "(nat, nat) Command" where
  "ex_failing_command = \<lparr>underlying = 3, aliases = [''fail''], require_permission = None,
                 require_channel = False, require_direct_message = False, func = PNone\<rparr>"

definition ex_registry :: "(nat, nat) registry" where
  "ex_registry = [''ping'' \<mapsto> CommandObject ex_command, ''p'' \<mapsto> CommandObject ex_command]"

definition ex_context :: "string \<Rightarrow> bool \<Rightarrow> Context" where
  "ex_context line pre = \<lparr>words = [line], words_eol = [line], prefixed = pre\<rparr>"

definition ex_announcement :: Context where
  "ex_announcement =
     \<lparr>words = [''Incoming'', ''Client:'', ''Bob''],
      words_eol = [''Incoming Client: Bob'', ''Client: Bob'', ''Bob''],
      prefixed = False\<rparr>"

section \<open>Construction of a Command\<close>

lemma validate_members_str:
  "isl (validate_members instance_of_str xs) \<longleftrightarrow> \<not> list_all is_PStr xs"
proof (induction xs)
  case Nil
  then show ?case by simp
next
  case (Cons x xs)
  then show ?case by (cases x) (auto split: sum.splits)
qed

lemma aliases_validator_fails:
  "isl (aliases_validator a) \<longleftrightarrow> (\<forall>xs. a = PTuple xs \<longrightarrow> xs = [] \<or> \<not> list_all is_PStr xs)"
proof (cases a)
  case (PTuple xs)
  then show ?thesis
    using validate_members_str [of xs]
    by (auto simp: aliases_validator_def deep_iterable_def truthy_validator_def split: sum.splits)
qed (simp_all add: aliases_validator_def deep_iterable_def)

lemma is_callable_fails: "isl (is_callable u) \<longleftrightarrow> \<not> is_PFunction u"
  by (cases u) simp_all

lemma instance_of_bool_fails: "isl (instance_of_bool v) \<longleftrightarrow> \<not> is_PBool v"
  by (cases v) simp_all

lemma optional_Permission_fails:
  "isl (optional instance_of_Permission v) \<longleftrightarrow> v \<noteq> PNone \<and> \<not> is_PPermission v"
  by (cases v) (simp_all add: optional_def)

text \<open>
  C4, as the code has it. Construction fails exactly when the handler is not callable, or
  \<open>aliases\<close> is not a non-empty tuple of strings, or \<open>require_permission\<close> is neither
  \<open>None\<close> nor a Permission, or \<open>require_channel\<close> or \<open>require_direct_message\<close> is not a
  bool. \<open>truthy_validator\<close> looks at the tuple, not at its entries, so no entry is
  rejected for being an empty string.
\<close>

theorem Command_init_fails_iff:
  "isl (Command_init u a rp rc rd fn) \<longleftrightarrow>
     \<not> is_PFunction u
     \<or> (\<forall>xs. a = PTuple xs \<longrightarrow> xs = [] \<or> \<not> list_all is_PStr xs)
     \<or> (rp \<noteq> PNone \<and> \<not> is_PPermission rp)
     \<or> \<not> is_PBool rc
     \<or> \<not> is_PBool rd"
proof -
  have "isl (Command_init u a rp rc rd fn) \<longleftrightarrow>
      isl (is_callable u) \<or> isl (aliases_validator a) \<or> isl (optional instance_of_Permission rp)
      \<or> isl (instance_of_bool rc) \<or> isl (instance_of_bool rd)"
    by (simp add: Command_init_def split: sum.splits)
  then show ?thesis
    by (simp only: is_callable_fails aliases_validator_fails optional_Permission_fails
        instance_of_bool_fails)
qed

theorem Command_init_fails_iff_witness:
  "isl (Command_init (PFunction (1::nat)) (PTuple []) (PNone :: (nat, nat) pyval)
         (PBool False) (PBool False) PNone)
   \<and> \<not> isl (Command_init (PFunction (1::nat)) (PTuple [PStr ''ping'', PStr ''p''])
         (PNone :: (nat, nat) pyval) (PBool False) (PBool False) PNone)
   \<and> isl (Command_init (PInt 7) (PTuple [PStr ''ping''])
         (PNone :: (nat, nat) pyval) (PBool False) (PBool False) PNone)"
  using Command_init_fails_iff [of "PFunction (1::nat)" "PTuple []" "PNone :: (nat, nat) pyval"
      "PBool False" "PBool False" PNone]
    Command_init_fails_iff [of "PFunction (1::nat)" "PTuple [PStr ''ping'', PStr ''p'']"
      "PNone :: (nat, nat) pyval" "PBool False" "PBool False" PNone]
    Command_init_fails_iff [of "PInt 7" "PTuple [PStr ''ping'']"
      "PNone :: (nat, nat) pyval" "PBool False" "PBool False" PNone]
  by simp

text \<open>
  C4, as the claim states it, fails: a tuple whose only alias is the empty string, with a
  callable handler and the default flags, is a valid Command, although its entry is falsy.
\<close>

theorem Command_init_empty_string_alias:
  "Command_init (PFunction (1::nat)) (PTuple [PStr '''']) (PNone :: (nat, nat) pyval)
     (PBool False) (PBool False) PNone
   = Inr \<lparr>underlying = 1, aliases = [''''], require_permission = None, require_channel = False,
          require_direct_message = False, func = PNone\<rparr>
   \<and> \<not> truthy (PStr '''' :: (nat, nat) pyval)"
  by (simp add: Command_init_def aliases_validator_def deep_iterable_def truthy_validator_def
      optional_def)

section \<open>Calling a Command\<close>

lemma validate_members_str_result:
  "validate_members instance_of_str xs = Inr ys \<Longrightarrow> xs = map PStr ys"
proof (induction xs arbitrary: ys)
  case Nil
  then show ?case by simp
next
  case (Cons x xs)
  then show ?case by (cases x) (auto split: sum.splits)
qed

text \<open>
  C9. A Command that passed construction holds the strings of its alias tuple, and the
  tuple is not empty. Calling it calls the underlying handler on the same arguments and
  state; whatever the handler gives back, a value or an exception, is what the call
  gives back, and in both cases one observation labelled with the first alias is added
  to \<open>TIME_IN_COMMAND\<close> after the handler ran.
\<close>

theorem Command_call_timed:
  assumes "Command_init u a rp rc rd fn = Inr c"
    and "apply_function E (underlying c) ctx args st = (r, st')"
  shows "a = PTuple (map PStr (aliases c)) \<and> aliases c \<noteq> [] \<and>
         Command_call E c ctx args st =
           (r, st'\<lparr>TIME_IN_COMMAND := TIME_IN_COMMAND st' @ [hd (aliases c)]\<rparr>)"
proof -
  from assms(1) obtain xs where a: "a = PTuple xs"
    and v: "validate_members instance_of_str xs = Inr (aliases c)" and t: "truthy a"
    by (auto simp: Command_init_def aliases_validator_def deep_iterable_def truthy_validator_def
        split: sum.splits option.splits if_splits elim: instance_of_tuple.elims)
  from v have xs: "xs = map PStr (aliases c)" by (rule validate_members_str_result)
  from a t have "xs \<noteq> []" by simp
  with xs have ne: "aliases c \<noteq> []" by auto
  then obtain l ls where "aliases c = l # ls" by (cases "aliases c") auto
  with assms(2) a xs show ?thesis by (simp add: Command_call_def)
qed

theorem Command_call_timed_witness:
  "Command_call ex_env ex_command (ex_context ''ping'' True) [] ex_state
     = (Inr (PInt 1), ex_state\<lparr>TIME_IN_COMMAND := [''ping'']\<rparr>)
   \<and> Command_call ex_env ex_failing_command (ex_context ''fail'' True) [] ex_state
     = (Inl (OtherException ''boom''), ex_state\<lparr>TIME_IN_COMMAND := [''fail'']\<rparr>)"
proof -
  have c1: "Command_init (PFunction (1::nat)) (PTuple [PStr ''ping'', PStr ''p''])
      (PNone :: (nat, nat) pyval) (PBool False) (PBool False) PNone = Inr ex_command"
    by (simp add: Command_init_def aliases_validator_def deep_iterable_def truthy_validator_def
        optional_def ex_command_def)
  have c2: "Command_init (PFunction (3::nat)) (PTuple [PStr ''fail''])
      (PNone :: (nat, nat) pyval) (PBool False) (PBool False) PNone = Inr ex_failing_command"
    by (simp add: Command_init_def aliases_validator_def deep_iterable_def truthy_validator_def
        optional_def ex_failing_command_def)
  have a1: "apply_function ex_env (underlying ex_command) (ex_context ''ping'' True) [] ex_state
      = (Inr (PInt 1), ex_state)"
    by (simp add: ex_env_def ex_command_def)
  have a2: "apply_function ex_env (underlying ex_failing_command) (ex_context ''fail'' True) []
      ex_state = (Inl (OtherException ''boom''), ex_state)"
    by (simp add: ex_env_def ex_failing_command_def)
  show ?thesis
    using Command_call_timed [OF c1 a1] Command_call_timed [OF c2 a2]
    by (simp add: ex_command_def ex_failing_command_def ex_state_def)
qed

section \<open>The dispatcher\<close>

text \<open>
  C8. When the first rest-of-line token is the empty string, \<open>trigger\<close> returns \<open>None\<close>
  at once. Whatever the collaborators and the registry are, the state afterwards is the
  state before with only the observation of \<open>TRIGGER_TIME\<close> that the timing decorator of
  \<open>trigger\<close> adds to every call: no handler ran, no fact was looked up, no reply was sent
  and \<open>TRIGGER_MISS\<close> is unchanged.
\<close>

theorem trigger_empty_message:
  assumes "words_eol ctx = [] # rest"
  shows "trigger E reg ctx st = (Inr PNone, st\<lparr>TRIGGER_TIME := TRIGGER_TIME st + 1\<rparr>)"
  using assms by (simp add: trigger_def trigger_body_def observe_TRIGGER_TIME_def)

theorem trigger_empty_message_witness:
  "words_eol (ex_context '''' True) = [] # []
   \<and> trigger ex_env ex_registry (ex_context '''' True) ex_state
       = (Inr PNone, ex_state\<lparr>TRIGGER_TIME := 1\<rparr>)"
proof -
  have h: "words_eol (ex_context '''' True) = [] # []" by (simp add: ex_context_def)
  show ?thesis
    using h trigger_empty_message [OF h, of ex_env ex_registry ex_state]
    by (simp add: ex_state_def)
qed

lemma callable_truthy: "callable h \<Longrightarrow> truthy_object h"
  by (erule callable.elims) simp_all

text \<open>
  C1. With the prefix flag set and the case-folded first word a key of the registry, the
  handler selected is the registered one and the extra arguments are empty. The state
  that comes back is the state that went in, so no call of the rule resolver was
  recorded, and the result does not depend on what the resolver would answer. On a line
  that is not empty, \<open>trigger\<close> then calls exactly that handler, with the context alone
  and on the unchanged state, unless the line is an announcement, which replaces the
  handler and nothing else.
\<close>

theorem select_registered:
  assumes "prefixed ctx" and "words ctx = w # ws" and "reg (casefold w) = Some cmd"
  shows "select E reg ctx st = (Inr (cmd, []), st) \<and>
         (\<forall>line rest. words_eol ctx = line # rest \<and> line \<noteq> [] \<and> callable cmd
            \<longrightarrow> trigger E reg ctx st =
                  observe_TRIGGER_TIME
                    (call E (if startswith line ''Incoming Client:''
                             then Plain (PFunction (handle_ratmama_announcement E)) else cmd)
                       ctx [] st))"
proof -
  have s: "select E reg ctx st = (Inr (cmd, []), st)"
    using assms by (simp add: select_def)
  show ?thesis using s callable_truthy [of cmd]
    by (auto simp: trigger_def trigger_body_def)
qed

theorem select_registered_witness:
  "fst (get_rule ex_env (words (ex_context ''Ping'' True)) (words_eol (ex_context ''Ping'' True))
        False) = Plain (PFunction 2)
   \<and> select ex_env ex_registry (ex_context ''Ping'' True) ex_state
       = (Inr (CommandObject ex_command, []), ex_state)
   \<and> trigger ex_env ex_registry (ex_context ''Ping'' True) ex_state
       = (Inr (PInt 1), ex_state\<lparr>TIME_IN_COMMAND := [''ping''], TRIGGER_TIME := 1\<rparr>)"
proof -
  have p: "prefixed (ex_context ''Ping'' True)"
    and w: "words (ex_context ''Ping'' True) = ''Ping'' # []"
    and e: "words_eol (ex_context ''Ping'' True) = ''Ping'' # []"
    by (simp_all add: ex_context_def)
  have r: "ex_registry (casefold ''Ping'') = Some (CommandObject ex_command)"
    by (simp add: ex_registry_def casefold_def casefold_char_def ascii_uppercase_def
        ascii_lowercase_def)
  have n: "\<not> startswith ''Ping'' ''Incoming Client:''"
    by (simp add: startswith_def)
  have c: "call ex_env (CommandObject ex_command) (ex_context ''Ping'' True) [] ex_state
      = (Inr (PInt 1), ex_state\<lparr>TIME_IN_COMMAND := [''ping'']\<rparr>)"
    by (simp add: Command_call_def ex_command_def ex_env_def ex_state_def)
  show ?thesis
    using select_registered [where reg = ex_registry and E = ex_env and st = ex_state, OF p w r] e n c
    by (simp add: observe_TRIGGER_TIME_def ex_env_def ex_context_def ex_state_def)
qed

text \<open>
  C2. On a tokenised line (\<open>words\<close> is not empty) whose full text starts with
  \<open>Incoming Client:\<close>, whatever the registry or the rule resolver selected is replaced by
  the announcement handler, and \<open>trigger\<close> is the call of that handler, with the extra
  arguments and the state the selection left.
\<close>

theorem trigger_announcement:
  assumes "words_eol ctx = line # rest" and "startswith line ''Incoming Client:''"
    and "words ctx \<noteq> []"
  shows "\<exists>sel extra_args st1. select E reg ctx st = (Inr (sel, extra_args), st1) \<and>
           trigger E reg ctx st =
             observe_TRIGGER_TIME
               (apply_function E (handle_ratmama_announcement E) ctx extra_args st1)"
proof -
  from assms(2) have ne: "line \<noteq> []" by (auto simp: startswith_def)
  obtain x st1 where sel: "select E reg ctx st = (x, st1)" by (cases "select E reg ctx st")
  from assms(3) sel obtain s a where x: "x = Inr (s, a)"
    by (cases "words ctx") (auto simp: select_def split: if_splits option.splits prod.splits)
  show ?thesis using assms(1,2) ne sel x
    by (simp add: trigger_def trigger_body_def)
qed

theorem trigger_announcement_witness:
  "startswith ''Incoming Client: Bob'' ''Incoming Client:''
   \<and> trigger ex_env ex_registry ex_announcement ex_state
       = (Inr (PInt 0),
          ex_state\<lparr>rule_queries := [(words ex_announcement, words_eol ex_announcement, True)],
                   TRIGGER_TIME := 1\<rparr>)"
proof -
  have e: "words_eol ex_announcement = ''Incoming Client: Bob'' # [''Client: Bob'', ''Bob'']"
    by (simp add: ex_announcement_def)
  have s: "startswith ''Incoming Client: Bob'' ''Incoming Client:''"
    by (simp add: startswith_def)
  have w: "words ex_announcement \<noteq> []"
    by (simp add: ex_announcement_def)
  show ?thesis
    using s trigger_announcement [OF e s w, of ex_env ex_registry ex_state]
    by (auto simp: select_def ask_get_rule_def observe_TRIGGER_TIME_def ex_env_def
        ex_announcement_def ex_state_def)
qed

lemma select_state:
  assumes "select E reg ctx st = (r, st1)"
  shows "st1 = st \<or> st1 = st\<lparr>rule_queries := rule_queries st @ [(words ctx, words_eol ctx, \<not> prefixed ctx)]\<rparr>"
  using assms
  by (auto simp: select_def ask_get_rule_def split: if_splits list.splits option.splits prod.splits)

lemma handle_fact_body_state:
  "snd (handle_fact_body E ctx st) = st \<or> (\<exists>msg. snd (handle_fact_body E ctx st) = reply msg st)"
  by (auto simp: handle_fact_body_def except_psycopg2_def Let_def
      split: list.splits option.splits sum.splits)

lemma handle_fact_FACT_TIME: "FACT_TIME (snd (handle_fact E ctx st)) = FACT_TIME st + 1"
  using handle_fact_body_state [of E ctx st]
  by (auto simp: handle_fact_def observe_FACT_TIME_def reply_def split: prod.splits)

text \<open>
  C7. When the line is not empty and not an announcement, and the selection came back
  with a handler that is not true, \<open>FACT_TIME\<close>, which the timing decorator of
  \<open>handle_fact\<close> feeds once per call, gains one observation if the context is prefixed
  and none otherwise. A prefixed context gets the outcome of \<open>handle_fact\<close>, with a
  miss counted when that is not true; a context without prefix asked the rule resolver
  once, gets \<open>None\<close>, and the only other changes are one more \<open>TRIGGER_MISS\<close> and the
  observation of \<open>TRIGGER_TIME\<close>.
\<close>

theorem trigger_fact_fallback:
  assumes "words_eol ctx = line # rest" and "line \<noteq> []"
    and "\<not> startswith line ''Incoming Client:''"
    and "select E reg ctx st = (Inr (sel, extra_args), st1)" and "\<not> truthy_object sel"
  shows "FACT_TIME (snd (trigger E reg ctx st))
           = (if prefixed ctx then FACT_TIME st + 1 else FACT_TIME st)
         \<and> (prefixed ctx \<longrightarrow>
              trigger E reg ctx st =
                observe_TRIGGER_TIME
                  (case handle_fact E ctx st1 of
                     (Inl e, st2) \<Rightarrow> (Inl e, st2)
                   | (Inr result, st2) \<Rightarrow>
                       (Inr PNone,
                        if truthy result then st2
                        else st2\<lparr>TRIGGER_MISS := TRIGGER_MISS st2 + 1\<rparr>)))
         \<and> (\<not> prefixed ctx \<longrightarrow>
              trigger E reg ctx st =
                (Inr PNone,
                 st\<lparr>rule_queries := rule_queries st @ [(words ctx, words_eol ctx, True)],
                    TRIGGER_MISS := TRIGGER_MISS st + 1,
                    TRIGGER_TIME := TRIGGER_TIME st + 1\<rparr>))"
proof -
  have body: "trigger_body E reg ctx st =
      (case (if prefixed ctx then handle_fact E ctx st1 else (Inr (PBool False), st1)) of
         (Inl e, st2) \<Rightarrow> (Inl e, st2)
       | (Inr result, st2) \<Rightarrow>
           if \<not> truthy result then (Inr PNone, st2\<lparr>TRIGGER_MISS := TRIGGER_MISS st2 + 1\<rparr>)
           else (Inr PNone, st2))"
    using assms by (simp add: trigger_body_def)
  have ft: "FACT_TIME st1 = FACT_TIME st"
    using select_state [OF assms(4)] by auto
  show ?thesis
  proof (cases "prefixed ctx")
    case True
    obtain r2 st2 where hf: "handle_fact E ctx st1 = (r2, st2)"
      by (cases "handle_fact E ctx st1")
    with handle_fact_FACT_TIME [of E ctx st1] ft have "FACT_TIME st2 = FACT_TIME st + 1"
      by simp
    with True body hf show ?thesis
      by (cases r2) (simp_all add: trigger_def observe_TRIGGER_TIME_def)
  next
    case False
    with assms(4) have "st1 = st\<lparr>rule_queries := rule_queries st @ [(words ctx, words_eol ctx, True)]\<rparr>"
      by (auto simp: select_def ask_get_rule_def split: if_splits prod.splits)
    with False body show ?thesis
      by (simp add: trigger_def observe_TRIGGER_TIME_def)
  qed
qed

theorem trigger_fact_fallback_witness:
  "trigger ex_env ex_registry (ex_context ''bye'' False) ex_state
     = (Inr PNone,
        ex_state\<lparr>rule_queries := [([''bye''], [''bye''], True)], TRIGGER_MISS := 1,
                 TRIGGER_TIME := 1\<rparr>)
   \<and> FACT_TIME (snd (trigger ex_env ex_registry (ex_context ''bye'' False) ex_state)) = 0
   \<and> FACT_TIME (snd (trigger ex_env ex_registry (ex_context ''bye'' True) ex_state)) = 1"
proof -
  have e: "\<And>p. words_eol (ex_context ''bye'' p) = ''bye'' # []"
    by (simp add: ex_context_def)
  have ne: "''bye'' \<noteq> []" by simp
  have n: "\<not> startswith ''bye'' ''Incoming Client:''"
    by (simp add: startswith_def)
  have r: "ex_registry (casefold ''bye'') = None"
    by (simp add: ex_registry_def casefold_def casefold_char_def ascii_uppercase_def
        ascii_lowercase_def)
  have s1: "select ex_env ex_registry (ex_context ''bye'' False) ex_state
      = (Inr (Plain PNone, []),
         ex_state\<lparr>rule_queries := rule_queries ex_state @ [([''bye''], [''bye''], True)]\<rparr>)"
    by (simp add: select_def ask_get_rule_def ex_env_def ex_context_def)
  have s2: "select ex_env ex_registry (ex_context ''bye'' True) ex_state
      = (Inr (Plain PNone, []),
         ex_state\<lparr>rule_queries := rule_queries ex_state @ [([''bye''], [''bye''], False)]\<rparr>)"
    using r by (simp add: select_def ask_get_rule_def ex_env_def ex_context_def)
  have t: "\<not> truthy_object (Plain PNone :: (nat, nat) object)" by simp
  have p: "\<not> prefixed (ex_context ''bye'' False)" and q: "prefixed (ex_context ''bye'' True)"
    by (simp_all add: ex_context_def)
  note unprefixed = trigger_fact_fallback [OF e ne n s1 t]
  note with_prefix = trigger_fact_fallback [OF e ne n s2 t]
  have "trigger ex_env ex_registry (ex_context ''bye'' False) ex_state
     = (Inr PNone,
        ex_state\<lparr>rule_queries := [([''bye''], [''bye''], True)], TRIGGER_MISS := 1,
                 TRIGGER_TIME := 1\<rparr>)"
    using unprefixed [THEN conjunct2, THEN conjunct2] p
    by (simp add: ex_context_def ex_state_def)
  moreover have "FACT_TIME (snd (trigger ex_env ex_registry (ex_context ''bye'' False) ex_state)) = 0"
    using unprefixed [THEN conjunct1] p by (simp add: ex_state_def)
  moreover have "FACT_TIME (snd (trigger ex_env ex_registry (ex_context ''bye'' True) ex_state)) = 1"
    using with_prefix [THEN conjunct1] q by (simp add: ex_state_def)
  ultimately show ?thesis by simp
qed

section \<open>The fact resolver\<close>

text \<open>
  C5. No call of \<open>handle_fact\<close> ends in a \<open>psycopg2.Error\<close>. When the line parses and
  the existence check raises one, or the check answers true and the fetch raises one,
  the handler returns \<open>False\<close>, and the state is as before but for the observation of
  \<open>FACT_TIME\<close>: nothing was replied.
\<close>

theorem handle_fact_storage_error:
  fixes E :: "('a, 'b) env"
  shows "(\<forall>k. fst (handle_fact E ctx st) \<noteq> Inl (Psycopg2Error k))
   \<and> (\<forall>line rest r n l k.
        words_eol ctx = line # rest \<and> parseString line = Some r
        \<and> n = casefold (name r) \<and> l = casefold (if lang r \<noteq> [] then lang r else ''en'')
        \<and> (fact_exists E n l = Inl (Psycopg2Error k)
           \<or> fact_exists E n l = Inr True \<and> fact_find E n l = Inl (Psycopg2Error k))
        \<longrightarrow> handle_fact E ctx st = (Inr (PBool False), st\<lparr>FACT_TIME := FACT_TIME st + 1\<rparr>))"
proof -
  have caught: "fst (except_psycopg2 e s :: ('a, 'b) outcome) \<noteq> Inl (Psycopg2Error k)"
    for e k and s :: state
    by (cases e) (simp_all add: except_psycopg2_def)
  have "fst (handle_fact_body E ctx st) \<noteq> Inl (Psycopg2Error k)" for k
    using caught
    by (simp add: handle_fact_body_def Let_def split: list.splits option.splits sum.splits)
  then have never: "\<forall>k. fst (handle_fact E ctx st) \<noteq> Inl (Psycopg2Error k)"
    by (cases "handle_fact_body E ctx st") (simp add: handle_fact_def observe_FACT_TIME_def)
  have degrade: "handle_fact E ctx st = (Inr (PBool False), st\<lparr>FACT_TIME := FACT_TIME st + 1\<rparr>)"
    if "words_eol ctx = line # rest" and "parseString line = Some r"
      and "fact_exists E (casefold (name r)) (casefold (if lang r \<noteq> [] then lang r else ''en''))
             = Inl (Psycopg2Error k)
           \<or> fact_exists E (casefold (name r)) (casefold (if lang r \<noteq> [] then lang r else ''en''))
             = Inr True
             \<and> fact_find E (casefold (name r)) (casefold (if lang r \<noteq> [] then lang r else ''en''))
             = Inl (Psycopg2Error k)"
    for line rest r k
    using that
    by (auto simp: handle_fact_def handle_fact_body_def observe_FACT_TIME_def
        except_psycopg2_def Let_def)
  from never degrade show ?thesis by blast
qed

theorem handle_fact_storage_error_witness:
  "handle_fact ex_env (ex_context ''down'' True) ex_state
     = (Inr (PBool False), ex_state\<lparr>FACT_TIME := 1\<rparr>)
   \<and> fact_exists ex_env ''gone'' ''en'' = Inr True
   \<and> fact_find ex_env ''gone'' ''en'' = Inl (Psycopg2Error ''OperationalError'')
   \<and> handle_fact ex_env (ex_context ''Gone'' True) ex_state
     = (Inr (PBool False), ex_state\<lparr>FACT_TIME := 1\<rparr>)"
proof -
  have e: "\<And>x. words_eol (ex_context x True) = x # []"
    by (simp add: ex_context_def)
  have p1: "parseString ''down'' = Some \<lparr>name = ''down'', lang = [], subjects = []\<rparr>"
    by code_simp
  have p2: "parseString ''Gone'' = Some \<lparr>name = ''Gone'', lang = [], subjects = []\<rparr>"
    by code_simp
  have c1: "casefold ''down'' = ''down''" and c2: "casefold ''Gone'' = ''gone''"
    and c3: "casefold ''en'' = ''en''"
    by code_simp+
  have x1: "fact_exists ex_env ''down'' ''en'' = Inl (Psycopg2Error ''OperationalError'')"
    by (simp add: ex_env_def)
  have x2: "fact_exists ex_env ''gone'' ''en'' = Inr True"
    and f2: "fact_find ex_env ''gone'' ''en'' = Inl (Psycopg2Error ''OperationalError'')"
    by (simp_all add: ex_env_def)
  note down_case = handle_fact_storage_error [of ex_env "ex_context ''down'' True" ex_state,
      THEN conjunct2, rule_format, of "''down''" "[]" _ "''down''" "''en''" "''OperationalError''"]
  note gone_case = handle_fact_storage_error [of ex_env "ex_context ''Gone'' True" ex_state,
      THEN conjunct2, rule_format, of "''Gone''" "[]" _ "''gone''" "''en''" "''OperationalError''"]
  have "handle_fact ex_env (ex_context ''down'' True) ex_state
     = (Inr (PBool False), ex_state\<lparr>FACT_TIME := 1\<rparr>)"
    using down_case [of "\<lparr>name = ''down'', lang = [], subjects = []\<rparr>"] e p1 c1 c3 x1
    by (simp add: ex_state_def)
  moreover have "handle_fact ex_env (ex_context ''Gone'' True) ex_state
     = (Inr (PBool False), ex_state\<lparr>FACT_TIME := 1\<rparr>)"
    using gone_case [of "\<lparr>name = ''Gone'', lang = [], subjects = []\<rparr>"] e p2 c2 c3 x2 f2
    by (simp add: ex_state_def)
  ultimately show ?thesis using x2 f2 by simp
qed

text \<open>
  C6. When the line parses, and the fact for the case-folded name and the case-folded
  language (\<open>en\<close> when the parse has none) exists and is fetched with message \<open>m\<close>, the
  handler returns \<open>True\<close> and sends one reply: the subjects joined by a comma and a
  space, then a colon and a space if there is a subject, then \<open>m\<close>. Without subjects the
  reply is \<open>m\<close>; with the subjects \<open>u1\<close> and \<open>u2\<close> it is \<open>u1, u2: m\<close>.
\<close>

theorem handle_fact_reply:
  assumes "words_eol ctx = line # rest" and "parseString line = Some r"
    and "n = casefold (name r)" and "l = casefold (if lang r \<noteq> [] then lang r else ''en'')"
    and "fact_exists E n l = Inr True" and "fact_find E n l = Inr f" and "message f = m"
  shows "handle_fact E ctx st =
           (Inr (PBool True),
            st\<lparr>replies := replies st
                  @ [join '', '' (subjects r) @ (if subjects r \<noteq> [] then '': '' else []) @ m],
               FACT_TIME := FACT_TIME st + 1\<rparr>)
         \<and> (subjects r = [] \<longrightarrow>
              replies (snd (handle_fact E ctx st)) = replies st @ [m])
         \<and> (\<forall>u1 u2. subjects r = [u1, u2] \<longrightarrow>
              replies (snd (handle_fact E ctx st)) = replies st @ [u1 @ '', '' @ u2 @ '': '' @ m])"
proof -
  have main: "handle_fact E ctx st =
           (Inr (PBool True),
            st\<lparr>replies := replies st
                  @ [join '', '' (subjects r) @ (if subjects r \<noteq> [] then '': '' else []) @ m],
               FACT_TIME := FACT_TIME st + 1\<rparr>)"
    using assms
    by (simp add: handle_fact_def handle_fact_body_def observe_FACT_TIME_def reply_def Let_def)
  then show ?thesis by simp
qed

theorem handle_fact_reply_witness:
  "handle_fact ex_env (ex_context ''Fact user1 user2'' True) ex_state
     = (Inr (PBool True),
        ex_state\<lparr>replies := [''user1, user2: the message''], FACT_TIME := 1\<rparr>)
   \<and> handle_fact ex_env (ex_context ''fact'' True) ex_state
     = (Inr (PBool True), ex_state\<lparr>replies := [''the message''], FACT_TIME := 1\<rparr>)"
proof -
  have e: "\<And>x. words_eol (ex_context x True) = x # []"
    by (simp add: ex_context_def)
  have p1: "parseString ''Fact user1 user2''
      = Some \<lparr>name = ''Fact'', lang = [], subjects = [''user1'', ''user2'']\<rparr>"
    by code_simp
  have p2: "parseString ''fact'' = Some \<lparr>name = ''fact'', lang = [], subjects = []\<rparr>"
    by code_simp
  have n1: "''fact'' = casefold (name \<lparr>name = ''Fact'', lang = [], subjects = [''user1'', ''user2'']\<rparr>)"
    and n2: "''fact'' = casefold (name \<lparr>name = ''fact'', lang = [], subjects = []\<rparr>)"
    by code_simp+
  have l1: "''en'' = casefold (if lang \<lparr>name = ''Fact'', lang = [], subjects = [''user1'', ''user2'']\<rparr> \<noteq> []
      then lang \<lparr>name = ''Fact'', lang = [], subjects = [''user1'', ''user2'']\<rparr> else ''en'')"
    and l2: "''en'' = casefold (if lang \<lparr>name = ''fact'', lang = [], subjects = []\<rparr> \<noteq> []
      then lang \<lparr>name = ''fact'', lang = [], subjects = []\<rparr> else ''en'')"
    by code_simp+
  have x: "fact_exists ex_env ''fact'' ''en'' = Inr True"
    and f: "fact_find ex_env ''fact'' ''en'' = Inr \<lparr>message = ''the message''\<rparr>"
    and m: "message \<lparr>message = ''the message''\<rparr> = ''the message''"
    by (simp_all add: ex_env_def)
  show ?thesis
    using handle_fact_reply [OF e p1 n1 l1 x f m, of ex_state, THEN conjunct1]
      handle_fact_reply [OF e p2 n2 l2 x f m, of ex_state, THEN conjunct1]
    by (simp add: ex_state_def)
qed

section \<open>Registration\<close>

lemma register_loop_collision:
  assumes "\<exists>n\<in>set ns. reg n \<noteq> None"
  shows "\<exists>pre a post. ns = pre @ a # post
           \<and> (\<forall>k\<in>set pre. reg k = None) \<and> distinct pre
           \<and> (reg a \<noteq> None \<or> a \<in> set pre)
           \<and> fst (register_loop fn ns reg) = Inl (NameCollisionException a)
           \<and> (\<forall>k. snd (register_loop fn ns reg) k = (if k \<in> set pre then Some fn else reg k))"
  using assms
proof (induction ns arbitrary: reg)
  case Nil
  then show ?case by simp
next
  case (Cons n ns)
  show ?case
  proof (cases "reg n")
    case (Some other)
    then have "n # ns = [] @ n # ns \<and> (\<forall>k\<in>set []. reg k = None) \<and> distinct ([] :: string list)
        \<and> (reg n \<noteq> None \<or> n \<in> set [])
        \<and> fst (register_loop fn (n # ns) reg) = Inl (NameCollisionException n)
        \<and> (\<forall>k. snd (register_loop fn (n # ns) reg) k = (if k \<in> set [] then Some fn else reg k))"
      by simp
    then show ?thesis by blast
  next
    case None
    let ?reg = "reg(n \<mapsto> fn)"
    from Cons.prems None have "\<exists>m\<in>set ns. ?reg m \<noteq> None" by auto
    from Cons.IH [OF this] obtain pre a post where
      ns: "ns = pre @ a # post" and fresh: "\<forall>k\<in>set pre. ?reg k = None"
      and dist: "distinct pre"
      and coll: "?reg a \<noteq> None \<or> a \<in> set pre"
      and res: "fst (register_loop fn ns ?reg) = Inl (NameCollisionException a)"
      and after: "\<forall>k. snd (register_loop fn ns ?reg) k = (if k \<in> set pre then Some fn else ?reg k)"
      by blast
    have 1: "n # ns = (n # pre) @ a # post" using ns by simp
    have 2: "\<forall>k\<in>set (n # pre). reg k = None"
      using fresh None by (auto split: if_splits)
    have 3: "reg a \<noteq> None \<or> a \<in> set (n # pre)"
      using coll by (auto split: if_splits)
    have "n \<notin> set pre"
      using fresh by auto
    with dist have 6: "distinct (n # pre)" by simp
    have 4: "fst (register_loop fn (n # ns) reg) = Inl (NameCollisionException a)"
      using res None by simp
    have 5: "\<forall>k. snd (register_loop fn (n # ns) reg) k = (if k \<in> set (n # pre) then Some fn else reg k)"
      using after None by simp
    from 1 2 3 4 5 6 show ?thesis by blast
  qed
qed

text \<open>
  C3, as the code has it. A call with a callable handler and a list of names of which one
  is, case-folded, already a key, raises the collision error for the first case-folded
  name \<open>a\<close> that is a key when its turn comes: a key from before the call, or one of the
  names \<open>pre\<close> before it in the same list. The names \<open>pre\<close> are pairwise different and
  none of them was a key before, so \<open>a\<close> is the first name of the list that is a key
  before the call or repeats an earlier name of the list. The names \<open>pre\<close> are bound to
  the new handler afterwards; every other key is as it was, and no name after \<open>a\<close> is
  added.
\<close>

theorem register_collision:
  assumes "callable fn" and "\<exists>n\<in>set names. reg (casefold n) \<noteq> None"
  shows "\<exists>pre a post. map casefold names = pre @ a # post
           \<and> (\<forall>k\<in>set pre. reg k = None) \<and> distinct pre
           \<and> (reg a \<noteq> None \<or> a \<in> set pre)
           \<and> fst (register fn (Many names) reg) = Inl (NameCollisionException a)
           \<and> (\<forall>k. snd (register fn (Many names) reg) k
                  = (if k \<in> set pre then Some fn else reg k))"
proof -
  from assms(1) have fn: "fn \<noteq> Plain PNone" by auto
  from assms(2) have "\<exists>n\<in>set (map casefold names). reg n \<noteq> None" by auto
  from register_loop_collision [OF this, of fn] fn assms(1)
  show ?thesis by (simp add: register_def)
qed

theorem register_collision_witness:
  "callable (CommandObject ex_failing_command)
   \<and> ex_registry (casefold ''Ping'') \<noteq> None
   \<and> ex_registry ''fail'' = None
   \<and> fst (register (CommandObject ex_failing_command) (Many [''fail'', ''Ping'']) ex_registry)
       = Inl (NameCollisionException ''ping'')
   \<and> snd (register (CommandObject ex_failing_command) (Many [''fail'', ''Ping'']) ex_registry)
        ''fail'' = Some (CommandObject ex_failing_command)
   \<and> snd (register (CommandObject ex_failing_command) (Many [''fail'', ''Ping'']) ex_registry)
        ''p'' = ex_registry ''p''
   \<and> fst (register (CommandObject ex_failing_command) (Many [''x'', ''X'', ''y'', ''Ping''])
          ex_registry)
       = Inl (NameCollisionException ''x'')
   \<and> snd (register (CommandObject ex_failing_command) (Many [''x'', ''X'', ''y'', ''Ping''])
          ex_registry) ''x'' = Some (CommandObject ex_failing_command)
   \<and> snd (register (CommandObject ex_failing_command) (Many [''x'', ''X'', ''y'', ''Ping''])
          ex_registry) ''y'' = None"
proof -
  let ?fn = "CommandObject ex_failing_command"
  have c: "callable ?fn" by simp
  have cf: "casefold ''Ping'' = ''ping''" "casefold ''fail'' = ''fail''"
    "casefold ''x'' = ''x''" "casefold ''X'' = ''x''" "casefold ''y'' = ''y''"
    by code_simp+
  have r: "ex_registry ''ping'' \<noteq> None" "ex_registry ''fail'' = None"
    "ex_registry ''x'' = None" "ex_registry ''y'' = None"
    by (simp_all add: ex_registry_def)
  have first: "fst (register ?fn (Many [''fail'', ''Ping'']) ex_registry)
        = Inl (NameCollisionException ''ping'')
      \<and> snd (register ?fn (Many [''fail'', ''Ping'']) ex_registry) ''fail'' = Some ?fn
      \<and> snd (register ?fn (Many [''fail'', ''Ping'']) ex_registry) ''p'' = ex_registry ''p''"
  proof -
    have h: "\<exists>n\<in>set [''fail'', ''Ping'']. ex_registry (casefold n) \<noteq> None"
      using cf r by simp
    from register_collision [OF c h] obtain pre a post where
      split: "map casefold [''fail'', ''Ping''] = pre @ a # post"
      and coll: "ex_registry a \<noteq> None \<or> a \<in> set pre"
      and res: "fst (register ?fn (Many [''fail'', ''Ping'']) ex_registry)
          = Inl (NameCollisionException a)"
      and after: "\<forall>k. snd (register ?fn (Many [''fail'', ''Ping'']) ex_registry) k
          = (if k \<in> set pre then Some ?fn else ex_registry k)"
      by blast
    from split cf have sp: "[''fail'', ''ping''] = pre @ a # post" by simp
    then consider "pre = []" | "pre = [''fail'']" | "pre = [''fail'', ''ping'']"
      by (auto simp: Cons_eq_append_conv)
    then have "pre = [''fail''] \<and> a = ''ping''"
    proof cases
      case 1
      with sp coll r show ?thesis by simp
    next
      case 2
      with sp show ?thesis by simp
    next
      case 3
      with sp show ?thesis by simp
    qed
    with res after show ?thesis by simp
  qed
  have second: "fst (register ?fn (Many [''x'', ''X'', ''y'', ''Ping'']) ex_registry)
        = Inl (NameCollisionException ''x'')
      \<and> snd (register ?fn (Many [''x'', ''X'', ''y'', ''Ping'']) ex_registry) ''x'' = Some ?fn
      \<and> snd (register ?fn (Many [''x'', ''X'', ''y'', ''Ping'']) ex_registry) ''y'' = None"
  proof -
    have h: "\<exists>n\<in>set [''x'', ''X'', ''y'', ''Ping'']. ex_registry (casefold n) \<noteq> None"
      using cf r by simp
    from register_collision [OF c h] obtain pre a post where
      split: "map casefold [''x'', ''X'', ''y'', ''Ping''] = pre @ a # post"
      and dist: "distinct pre"
      and coll: "ex_registry a \<noteq> None \<or> a \<in> set pre"
      and res: "fst (register ?fn (Many [''x'', ''X'', ''y'', ''Ping'']) ex_registry)
          = Inl (NameCollisionException a)"
      and after: "\<forall>k. snd (register ?fn (Many [''x'', ''X'', ''y'', ''Ping'']) ex_registry) k
          = (if k \<in> set pre then Some ?fn else ex_registry k)"
      by blast
    from split cf have sp: "[''x'', ''x'', ''y'', ''ping''] = pre @ a # post" by simp
    then consider "pre = []" | "pre = [''x'']" | "pre = [''x'', ''x'']"
      | "pre = [''x'', ''x'', ''y'']" | "pre = [''x'', ''x'', ''y'', ''ping'']"
      by (auto simp: Cons_eq_append_conv)
    then have "pre = [''x''] \<and> a = ''x''"
    proof cases
      case 1
      with sp coll r show ?thesis by simp
    next
      case 2
      with sp show ?thesis by simp
    next
      case 3
      with dist show ?thesis by simp
    next
      case 4
      with dist show ?thesis by simp
    next
      case 5
      with sp show ?thesis by simp
    qed
    with res after r show ?thesis by simp
  qed
  from c cf r first second show ?thesis by simp
qed

text \<open>
  C3, as the claim states it, fails. With \<open>ping\<close> registered, registering a handler under
  \<open>fail\<close> and \<open>Ping\<close> raises the collision error for \<open>ping\<close>, and \<open>fail\<close>, which was
  not a key before the call, is bound to the new handler after it.
\<close>

theorem register_not_atomic:
  "ex_registry (casefold ''Ping'') = Some (CommandObject ex_command)
   \<and> ex_registry ''fail'' = None
   \<and> register (CommandObject ex_failing_command) (Many [''fail'', ''Ping'']) ex_registry
       = (Inl (NameCollisionException ''ping''),
          ex_registry(''fail'' \<mapsto> CommandObject ex_failing_command))
   \<and> ex_registry(''fail'' \<mapsto> CommandObject ex_failing_command) \<noteq> ex_registry"
proof -
  have cf: "casefold ''Ping'' = ''ping''" "casefold ''fail'' = ''fail''" by code_simp+
  have r: "ex_registry ''ping'' = Some (CommandObject ex_command)" "ex_registry ''fail'' = None"
    by (simp_all add: ex_registry_def)
  have "(ex_registry(''fail'' \<mapsto> CommandObject ex_failing_command)) ''fail'' \<noteq> ex_registry ''fail''"
    using r by simp
  then have ne: "ex_registry(''fail'' \<mapsto> CommandObject ex_failing_command) \<noteq> ex_registry"
    by metis
  have "register (CommandObject ex_failing_command) (Many [''fail'', ''Ping'']) ex_registry
       = (Inl (NameCollisionException ''ping''),
          ex_registry(''fail'' \<mapsto> CommandObject ex_failing_command))"
    using cf r by (simp add: register_def)
  with cf r ne show ?thesis by simp
qed

section \<open>The fact grammar matches a prefix\<close>

lemma preParse_append:
  assumes "d \<notin> set white_chars"
  shows "preParse (s @ d # t) = preParse s @ d # t"
  using assms by (simp add: preParse_def dropWhile_append3 dropWhile_append)

lemma Word_append:
  assumes "d \<notin> set chars" and "d \<notin> set white_chars"
  shows "Word chars (s @ d # t) = map_option (\<lambda>(tok, r). (tok, r @ d # t)) (Word chars s)"
  using assms
  by (simp add: Word_def Let_def preParse_append takeWhile_tail dropWhile_append3)

lemma Suppress_append:
  assumes "d \<noteq> CHR ''-''" and "d \<notin> set white_chars"
  shows "Suppress ''-'' (s @ d # t) = map_option (\<lambda>r. r @ d # t) (Suppress ''-'' s)"
  using assms
  by (cases "preParse s") (simp_all add: Suppress_def Let_def preParse_append startswith_def)

lemma optional_lang_append:
  assumes "d \<notin> set alphas" and "d \<noteq> CHR ''-''" and "d \<notin> set white_chars"
  shows "optional_lang (s @ d # t) = (case optional_lang s of (l, r) \<Rightarrow> (l, r @ d # t))"
  using assms
  by (auto simp: optional_lang_def Suppress_append Word_append preParse_append
      split: option.splits)

lemma repeat_Word_append:
  assumes "d \<notin> set chars" and "d \<notin> set white_chars"
  shows "repeat_Word chars (s @ d # t)
           = (case repeat_Word chars s of (toks, r) \<Rightarrow> (toks, r @ d # t))"
  using assms
proof (induction chars s rule: repeat_Word.induct)
  case (1 chars s)
  show ?case
  proof (cases "Word chars s")
    case None
    then have "Word chars (s @ d # t) = None"
      using Word_append [OF "1.prems", of s t] by simp
    with None show ?thesis
      by (simp add: repeat_Word.simps [of chars s] repeat_Word.simps [of chars "s @ d # t"])
  next
    case (Some a)
    obtain tok r where a: "a = (tok, r)" by (cases a)
    with Some have W: "Word chars (s @ d # t) = Some (tok, r @ d # t)"
      using Word_append [OF "1.prems", of s t] by simp
    have IH: "repeat_Word chars (r @ d # t)
        = (case repeat_Word chars r of (toks, r') \<Rightarrow> (toks, r' @ d # t))"
      using "1.IH" [OF Some a [symmetric] "1.prems"] .
    show ?thesis
      using Some a W IH
      by (simp add: repeat_Word.simps [of chars s] repeat_Word.simps [of chars "s @ d # t"]
          split: prod.splits)
  qed
qed

lemma ZeroOrMore_Word_append:
  assumes "d \<notin> set chars" and "d \<notin> set white_chars"
  shows "ZeroOrMore_Word chars (s @ d # t)
           = (case ZeroOrMore_Word chars s of (toks, r) \<Rightarrow> (toks, r @ d # t))"
  by (auto simp: ZeroOrMore_Word_def Word_append [OF assms] repeat_Word_append [OF assms]
      preParse_append [OF assms(2)] split: option.splits prod.splits)

lemma pattern_append:
  assumes "d \<notin> set subject_chars" and "d \<notin> set white_chars"
  shows "pattern (s @ d # t) = map_option (\<lambda>(res, r). (res, r @ d # t)) (pattern s)"
proof -
  from assms(1) have an: "d \<notin> set alphanums" and al: "d \<notin> set alphas" and da: "d \<noteq> CHR ''-''"
    by (auto simp: subject_chars_def alphanums_def)
  show ?thesis
    by (auto simp: pattern_def Word_append [OF an assms(2)]
        optional_lang_append [OF al da assms(2)]
        ZeroOrMore_Word_append [OF assms] split: option.splits prod.splits)
qed

text \<open>
  C10. A line whose first character after the leading whitespace is alphanumeric always
  parses. The match covers a prefix of the line only: from the first character that is
  neither whitespace nor a subject character on, the text has no effect on the result.
  So the subjects can be fewer than the words that follow the name: in
  \<open>fact bar !baz qux\<close> the only subject is \<open>bar\<close>.
\<close>

theorem parseString_prefix:
  "(\<forall>c r. preParse s = c # r \<and> c \<in> set alphanums \<longrightarrow> parseString s \<noteq> None)
   \<and> (\<forall>d t. d \<notin> set subject_chars \<and> d \<notin> set white_chars
          \<longrightarrow> parseString (s @ d # t) = parseString s)
   \<and> parseString ''fact bar !baz qux'' = Some \<lparr>name = ''fact'', lang = [], subjects = [''bar'']\<rparr>"
proof -
  have 1: "parseString s \<noteq> None" if "preParse s = c # r" and "c \<in> set alphanums" for c r
    using that
    by (simp add: parseString_def pattern_def Word_def Let_def split: option.splits prod.splits)
  have 2: "parseString (s @ d # t) = parseString s"
    if "d \<notin> set subject_chars" and "d \<notin> set white_chars" for d t
    using pattern_append [OF that, of s t]
    by (cases "pattern s") (auto simp: parseString_def)
  have 3: "parseString ''fact bar !baz qux''
      = Some \<lparr>name = ''fact'', lang = [], subjects = [''bar'']\<rparr>"
    by code_simp
  from 1 2 3 show ?thesis by blast
qed

theorem parseString_prefix_witness:
  "preParse ''  fact bar '' = CHR ''f'' # ''act bar '' \<and> CHR ''f'' \<in> set alphanums
   \<and> parseString ''  fact bar '' \<noteq> None
   \<and> CHR ''!'' \<notin> set subject_chars \<and> CHR ''!'' \<notin> set white_chars
   \<and> parseString (''  fact bar '' @ CHR ''!'' # ''baz qux'') = parseString ''  fact bar ''"
proof -
  have a: "preParse ''  fact bar '' = CHR ''f'' # ''act bar ''" by code_simp
  have b: "CHR ''f'' \<in> set alphanums" by code_simp
  have c: "CHR ''!'' \<notin> set subject_chars" by code_simp
  have d: "CHR ''!'' \<notin> set white_chars" by code_simp
  note inst = parseString_prefix [of "''  fact bar ''"]
  from inst a b have "parseString ''  fact bar '' \<noteq> None" by blast
  moreover from inst c d
  have "parseString (''  fact bar '' @ CHR ''!'' # ''baz qux'') = parseString ''  fact bar ''"
    by blast
  ultimately show ?thesis using a b c d by blast
qed

end
